theory Spec2Isabelle
  imports Main
begin

section \<open>The matchmaking and relay gateway (apps/backend/src/app.gateway.ts)\<close>

text \<open>
  The class \<open>AppGateway\<close> owns two pieces of mutable state, the array \<open>waitingQueue\<close>
  and the map \<open>socketToRoom\<close>, and talks to the socket.io server: it makes sockets
  join and leave rooms and emits events to a socket or to a room. The model is a
  record holding the gateway's two fields together with the part of the transport the
  handlers read and write: the live sockets (\<open>server.sockets.sockets\<close>), the room
  membership kept by the adapter, and the list of events delivered so far.
\<close>

type_synonym socket_id = string
type_synonym room = string

text \<open>Events the server emits; \<open>'p\<close> is the opaque signalling payload (\<open>unknown\<close>).\<close>

datatype 'p server_event =
    WaitingForMatch
  | MatchFound room
  | IsInitiator bool
  | SignalEv socket_id 'p
  | ReceiveMessage string string
  | PartnerDisconnected

record 'p gateway =
  sockets :: "socket_id set"
  rooms :: "room \<Rightarrow> socket_id list"
  outbox :: "(socket_id \<times> 'p server_event) list"
  waitingQueue :: "socket_id list"
  socketToRoom :: "socket_id \<rightharpoonup> room"

definition init :: "'p gateway" where
  "init = \<lparr>sockets = {}, rooms = (\<lambda>_. []), outbox = [],
           waitingQueue = [], socketToRoom = Map.empty\<rparr>"

subsection \<open>The transport (socket.io) as the handlers use it\<close>

text \<open>
  socket.io gives every connection an identifier of 20 characters (15 bytes in URL-safe
  base64), unique among the live connections, and puts the socket into the room named
  by its own identifier. A room is a set of socket identifiers kept in insertion order.
\<close>

definition valid_id :: "socket_id \<Rightarrow> bool" where
  "valid_id c \<longleftrightarrow> length c = 20"

text \<open>\<open>Set.prototype.add\<close> on a set kept in insertion order.\<close>

definition set_add :: "socket_id list \<Rightarrow> socket_id \<Rightarrow> socket_id list" where
  "set_add xs c = (if c \<in> set xs then xs else xs @ [c])"

text \<open>\<open>socket.join(r)\<close>\<close>

definition socket_join :: "socket_id \<Rightarrow> room \<Rightarrow> 'p gateway \<Rightarrow> 'p gateway" where
  "socket_join c r s = s\<lparr>rooms := (rooms s)(r := set_add (rooms s r) c)\<rparr>"

text \<open>\<open>server.sockets.sockets.get(c)?.join(r)\<close>: nothing happens when \<open>c\<close> is not live.\<close>

definition server_get_join :: "socket_id \<Rightarrow> room \<Rightarrow> 'p gateway \<Rightarrow> 'p gateway" where
  "server_get_join c r s = (if c \<in> sockets s then socket_join c r s else s)"

text \<open>\<open>server.to(r).emit(ev)\<close>: every socket in room \<open>r\<close> receives \<open>ev\<close>.\<close>

definition server_to_emit :: "room \<Rightarrow> 'p server_event \<Rightarrow> 'p gateway \<Rightarrow> 'p gateway" where
  "server_to_emit r ev s = s\<lparr>outbox := outbox s @ map (\<lambda>x. (x, ev)) (rooms s r)\<rparr>"

text \<open>\<open>client.to(r).emit(ev)\<close>: every socket in room \<open>r\<close> except \<open>client\<close> receives \<open>ev\<close>.\<close>

definition client_to_emit ::
  "socket_id \<Rightarrow> room \<Rightarrow> 'p server_event \<Rightarrow> 'p gateway \<Rightarrow> 'p gateway" where
  "client_to_emit c r ev s =
     s\<lparr>outbox := outbox s @ map (\<lambda>x. (x, ev)) (filter (\<lambda>x. x \<noteq> c) (rooms s r))\<rparr>"

text \<open>\<open>client.emit(ev)\<close>\<close>

definition client_emit :: "socket_id \<Rightarrow> 'p server_event \<Rightarrow> 'p gateway \<Rightarrow> 'p gateway" where
  "client_emit c ev s = s\<lparr>outbox := outbox s @ [(c, ev)]\<rparr>"

text \<open>\<open>server.in(r).socketsLeave(r)\<close>\<close>

definition socketsLeave :: "room \<Rightarrow> 'p gateway \<Rightarrow> 'p gateway" where
  "socketsLeave r s = s\<lparr>rooms := (rooms s)(r := [])\<rparr>"

text \<open>A new connection: the socket is registered and joins its own room.\<close>

definition transport_connect :: "socket_id \<Rightarrow> 'p gateway \<Rightarrow> 'p gateway" where
  "transport_connect c s = socket_join c c (s\<lparr>sockets := insert c (sockets s)\<rparr>)"

text \<open>
  A closing connection: socket.io makes the socket leave all its rooms and removes it
  from the server before the \<open>disconnect\<close> event reaches \<open>handleDisconnect\<close>.
\<close>

definition transport_close :: "socket_id \<Rightarrow> 'p gateway \<Rightarrow> 'p gateway" where
  "transport_close c s =
     s\<lparr>sockets := sockets s - {c}, rooms := (\<lambda>r. removeAll c (rooms s r))\<rparr>"

subsection \<open>The handlers\<close>

text \<open>\<open>`room_${partnerId}_${client.id}`\<close>\<close>

definition roomId :: "socket_id \<Rightarrow> socket_id \<Rightarrow> room" where
  "roomId partnerId c = ''room_'' @ partnerId @ ''_'' @ c"

text \<open>\<open>handleConnection\<close> only writes to the console.\<close>

definition handleConnection :: "socket_id \<Rightarrow> 'p gateway \<Rightarrow> 'p gateway" where
  "handleConnection c s = s"

text \<open>
  \<open>handleJoinQueue\<close>. \<open>if (partnerId)\<close> is JavaScript truthiness of a string: false
  exactly for the empty string (\<open>shift\<close> on a non-empty array is never \<open>undefined\<close>).
\<close>

definition handleJoinQueue :: "socket_id \<Rightarrow> 'p gateway \<Rightarrow> 'p gateway" where
  "handleJoinQueue c s =
     (if socketToRoom s c \<noteq> None \<or> c \<in> set (waitingQueue s) then s
      else case waitingQueue s of
        partnerId # rest \<Rightarrow>
          (let s1 = s\<lparr>waitingQueue := rest\<rparr> in
           if partnerId = c then s1\<lparr>waitingQueue := waitingQueue s1 @ [c]\<rparr>
           else
             let r = roomId partnerId c;
                 s2 = s1\<lparr>socketToRoom := (socketToRoom s1)(c \<mapsto> r)\<rparr>
             in if partnerId \<noteq> [] then
                  let s3 = s2\<lparr>socketToRoom := (socketToRoom s2)(partnerId \<mapsto> r)\<rparr>;
                      s4 = socket_join c r s3;
                      s5 = server_get_join partnerId r s4;
                      s6 = server_to_emit r (MatchFound r) s5;
                      s7 = client_emit c (IsInitiator True) s6
                  in server_to_emit partnerId (IsInitiator False) s7
                else s2)
      | [] \<Rightarrow>
          client_emit c WaitingForMatch (s\<lparr>waitingQueue := waitingQueue s @ [c]\<rparr>))"

text \<open>
  \<open>handleUserLeave\<close>. \<open>if (roomId)\<close> is false for \<open>undefined\<close> (no entry) and for
  the empty string.
\<close>

definition handleUserLeave :: "socket_id \<Rightarrow> 'p gateway \<Rightarrow> 'p gateway" where
  "handleUserLeave socketId s =
     (let s1 = s\<lparr>waitingQueue := filter (\<lambda>i. i \<noteq> socketId) (waitingQueue s)\<rparr> in
      case socketToRoom s1 socketId of
        None \<Rightarrow> s1
      | Some r \<Rightarrow>
          if r \<noteq> [] then
            let s2 = server_to_emit r PartnerDisconnected s1;
                s3 = socketsLeave r s2
            in s3\<lparr>socketToRoom := (socketToRoom s3)(socketId := None)\<rparr>
          else s1)"

definition handleDisconnect :: "socket_id \<Rightarrow> 'p gateway \<Rightarrow> 'p gateway" where
  "handleDisconnect c s = handleUserLeave c s"

definition handleLeaveRoom :: "socket_id \<Rightarrow> 'p gateway \<Rightarrow> 'p gateway" where
  "handleLeaveRoom c s = handleUserLeave c s"

text \<open>\<open>handleSignal\<close>; the payload is \<open>{ target, signal }\<close>.\<close>

definition handleSignal :: "socket_id \<Rightarrow> string \<Rightarrow> 'p \<Rightarrow> 'p gateway \<Rightarrow> 'p gateway" where
  "handleSignal c target signal s =
     (case socketToRoom s c of
        None \<Rightarrow> s
      | Some r \<Rightarrow> if r \<noteq> [] then client_to_emit c r (SignalEv c signal) s else s)"

text \<open>\<open>handleMessage\<close>; the payload is \<open>{ text }\<close>.\<close>

definition handleMessage :: "socket_id \<Rightarrow> string \<Rightarrow> 'p gateway \<Rightarrow> 'p gateway" where
  "handleMessage c text s =
     (case socketToRoom s c of
        None \<Rightarrow> s
      | Some r \<Rightarrow>
          if r \<noteq> [] then client_to_emit c r (ReceiveMessage ''partner'' text) s else s)"

subsection \<open>Events and reachable states\<close>

text \<open>
  Each inbound event is handled to completion before the next one. Client events come
  from live sockets only; a connection gets an identifier no live socket has.
\<close>

datatype 'p client_event =
    Connect socket_id
  | Disconnect socket_id
  | JoinQueue socket_id
  | LeaveRoom socket_id
  | Signal socket_id string 'p
  | SendMessage socket_id string

fun enabled :: "'p gateway \<Rightarrow> 'p client_event \<Rightarrow> bool" where
  "enabled s (Connect c) = (c \<notin> sockets s \<and> valid_id c)"
| "enabled s (Disconnect c) = (c \<in> sockets s)"
| "enabled s (JoinQueue c) = (c \<in> sockets s)"
| "enabled s (LeaveRoom c) = (c \<in> sockets s)"
| "enabled s (Signal c target signal) = (c \<in> sockets s)"
| "enabled s (SendMessage c text) = (c \<in> sockets s)"

fun dispatch :: "'p client_event \<Rightarrow> 'p gateway \<Rightarrow> 'p gateway" where
  "dispatch (Connect c) s = handleConnection c (transport_connect c s)"
| "dispatch (Disconnect c) s = handleDisconnect c (transport_close c s)"
| "dispatch (JoinQueue c) s = handleJoinQueue c s"
| "dispatch (LeaveRoom c) s = handleLeaveRoom c s"
| "dispatch (Signal c target signal) s = handleSignal c target signal s"
| "dispatch (SendMessage c text) s = handleMessage c text s"

inductive reachable :: "'p gateway \<Rightarrow> bool" where
  reachable_init: "reachable init"
| reachable_step: "reachable s \<Longrightarrow> enabled s e \<Longrightarrow> reachable (dispatch e s)"

text \<open>Running a list of events from a state; \<open>feasible\<close> says each one was enabled.\<close>

fun exec :: "'p client_event list \<Rightarrow> 'p gateway \<Rightarrow> 'p gateway" where
  "exec [] s = s"
| "exec (e # es) s = exec es (dispatch e s)"

fun feasible :: "'p client_event list \<Rightarrow> 'p gateway \<Rightarrow> bool" where
  "feasible [] s = True"
| "feasible (e # es) s = (enabled s e \<and> feasible es (dispatch e s))"

text \<open>
  The state of a connection is read off the two structures, as the guard of
  \<open>handleJoinQueue\<close> does: queued when in \<open>waitingQueue\<close>, paired when \<open>socketToRoom\<close>
  has an entry, idle otherwise.
\<close>

definition isQueued :: "'p gateway \<Rightarrow> socket_id \<Rightarrow> bool" where
  "isQueued s c \<longleftrightarrow> c \<in> set (waitingQueue s)"

definition isPaired :: "'p gateway \<Rightarrow> socket_id \<Rightarrow> bool" where
  "isPaired s c \<longleftrightarrow> socketToRoom s c \<noteq> None"

definition isIdle :: "'p gateway \<Rightarrow> socket_id \<Rightarrow> bool" where
  "isIdle s c \<longleftrightarrow> \<not> isQueued s c \<and> \<not> isPaired s c"

text \<open>
  The path condition of the guard branch of \<open>handleJoinQueue\<close> (\<open>partnerId === client.id\<close>):
  the first guard did not return, the queue is non-empty and its head is the client.
\<close>

definition selfPairBranch :: "'p gateway \<Rightarrow> socket_id \<Rightarrow> bool" where
  "selfPairBranch s c \<longleftrightarrow>
     \<not> (socketToRoom s c \<noteq> None \<or> c \<in> set (waitingQueue s)) \<and>
     (case waitingQueue s of [] \<Rightarrow> False | partnerId # rest \<Rightarrow> partnerId = c)"

text \<open>
  Symmetry of the directory for the session of waiting partner \<open>p\<close> and joiner \<open>j\<close>:
  \<open>p\<close> is mapped to their room exactly when \<open>j\<close> is.
\<close>

definition session_symmetric :: "'p gateway \<Rightarrow> socket_id \<Rightarrow> socket_id \<Rightarrow> bool" where
  "session_symmetric s p j \<longleftrightarrow>
     (socketToRoom s p = Some (roomId p j)) = (socketToRoom s j = Some (roomId p j))"

subsection \<open>Invariants\<close>

text \<open>
  Queue and directory: the queue has no duplicates, nobody is both queued and mapped,
  only live sockets are queued or mapped, no room name is empty, and live identifiers
  are well-formed.
\<close>

definition inv_core :: "'p gateway \<Rightarrow> bool" where
  "inv_core s \<longleftrightarrow>
     distinct (waitingQueue s) \<and>
     (\<forall>c \<in> set (waitingQueue s). socketToRoom s c = None) \<and>
     set (waitingQueue s) \<subseteq> sockets s \<and>
     dom (socketToRoom s) \<subseteq> sockets s \<and>
     (\<forall>c. socketToRoom s c \<noteq> Some []) \<and>
     (\<forall>c \<in> sockets s. valid_id c)"

text \<open>Every directory entry names a room made of two different identifiers, one of them the key.\<close>

definition dir_shape :: "'p gateway \<Rightarrow> bool" where
  "dir_shape s \<longleftrightarrow>
     (\<forall>c r. socketToRoom s c = Some r \<longrightarrow>
        (\<exists>p j. p \<noteq> j \<and> valid_id p \<and> valid_id j \<and> r = roomId p j \<and> (c = p \<or> c = j)))"

text \<open>
  Rooms of the transport: a member of a room is live and the room is its own or the one
  the directory gives it; a live socket is in its own room; rooms hold no duplicates;
  two sockets mapped to the same room are both in it.
\<close>

definition rooms_ok :: "'p gateway \<Rightarrow> bool" where
  "rooms_ok s \<longleftrightarrow>
     (\<forall>r c. c \<in> set (rooms s r) \<longrightarrow> c \<in> sockets s \<and> (r = c \<or> socketToRoom s c = Some r)) \<and>
     (\<forall>c \<in> sockets s. c \<in> set (rooms s c)) \<and>
     (\<forall>r. distinct (rooms s r)) \<and>
     (\<forall>a b r. socketToRoom s a = Some r \<and> socketToRoom s b = Some r \<and> a \<noteq> b \<longrightarrow>
        a \<in> set (rooms s r) \<and> b \<in> set (rooms s r))"

subsection \<open>Concrete connections and traces for the examples\<close>

definition idA :: socket_id where "idA = ''AAAAAAAAAAAAAAAAAAAA''"
definition idB :: socket_id where "idB = ''BBBBBBBBBBBBBBBBBBBB''"
definition idC :: socket_id where "idC = ''CCCCCCCCCCCCCCCCCCCC''"
definition idD :: socket_id where "idD = ''DDDDDDDDDDDDDDDDDDDD''"

text \<open>A and B connect, A joins the queue and waits, B joins and is matched with A.\<close>

definition pairAB :: "string client_event list" where
  "pairAB = [Connect idA, Connect idB, JoinQueue idA, JoinQueue idB]"

text \<open>A connects and joins the empty queue.\<close>

definition waitA :: "string client_event list" where
  "waitA = [Connect idA, JoinQueue idA]"

text \<open>A and B connect and stay idle.\<close>

definition connectAB :: "string client_event list" where
  "connectAB = [Connect idA, Connect idB]"

text \<open>A state with A and B waiting in that order (C and D live and idle).\<close>

definition twoWaiting :: "string gateway" where
  "twoWaiting = init\<lparr>sockets := {idA, idB, idC, idD}, waitingQueue := [idA, idB]\<rparr>"

section \<open>Basic facts\<close>

lemma exec_reachable: "reachable s \<Longrightarrow> feasible es s \<Longrightarrow> reachable (exec es s)"
  by (induction es arbitrary: s) (auto intro: reachable_step)

section \<open>The invariants hold in every reachable state\<close>

lemmas transport_defs = set_add_def socket_join_def server_get_join_def server_to_emit_def
  client_to_emit_def client_emit_def socketsLeave_def transport_connect_def transport_close_def

lemmas handler_defs = handleConnection_def handleJoinQueue_def handleUserLeave_def
  handleDisconnect_def handleLeaveRoom_def handleSignal_def handleMessage_def

lemma roomId_inject:
  "length p = length p' \<Longrightarrow> roomId p c = roomId p' c' \<longleftrightarrow> p = p' \<and> c = c'"
  by (auto simp: roomId_def)

lemma roomId_not_Nil [simp]: "roomId p c \<noteq> []"
  by (simp add: roomId_def)

lemma roomId_not_valid: "valid_id p \<Longrightarrow> valid_id c \<Longrightarrow> \<not> valid_id (roomId p c)"
  by (simp add: roomId_def valid_id_def)

lemma inv_core_init: "inv_core init"
  by (simp add: inv_core_def init_def)

lemma inv_core_connect: "inv_core s \<Longrightarrow> c \<notin> sockets s \<Longrightarrow> valid_id c \<Longrightarrow> inv_core (transport_connect c s)"
  by (auto simp: inv_core_def transport_defs)

lemma inv_core_leave: "inv_core s \<Longrightarrow> inv_core (handleUserLeave c s)"
  by (auto simp: inv_core_def handleUserLeave_def transport_defs Let_def split: option.splits)

lemma inv_core_close: "inv_core s \<Longrightarrow> inv_core (handleUserLeave c (transport_close c s))"
  by (auto simp: inv_core_def handleUserLeave_def transport_defs Let_def split: option.splits)

lemma inv_core_join: "inv_core s \<Longrightarrow> c \<in> sockets s \<Longrightarrow> inv_core (handleJoinQueue c s)"
  by (auto simp: inv_core_def handleJoinQueue_def transport_defs Let_def split: list.splits)

lemma inv_core_signal: "inv_core s \<Longrightarrow> inv_core (handleSignal c t p s)"
  by (auto simp: inv_core_def handleSignal_def transport_defs split: option.splits)

lemma inv_core_message: "inv_core s \<Longrightarrow> inv_core (handleMessage c t s)"
  by (auto simp: inv_core_def handleMessage_def transport_defs split: option.splits)

lemma inv_core_dispatch: "inv_core s \<Longrightarrow> enabled s e \<Longrightarrow> inv_core (dispatch e s)"
  by (cases e) (simp_all add: inv_core_connect inv_core_leave inv_core_close inv_core_join
      inv_core_signal inv_core_message handleConnection_def handleDisconnect_def handleLeaveRoom_def)

lemma reachable_inv_core: "reachable s \<Longrightarrow> inv_core s"
  by (induction rule: reachable.induct) (simp_all add: inv_core_init inv_core_dispatch)

lemma dir_shape_init: "dir_shape init"
  by (simp add: dir_shape_def init_def)

lemma dir_shape_connect: "dir_shape s \<Longrightarrow> dir_shape (transport_connect c s)"
  by (simp add: dir_shape_def transport_defs)

lemma dir_shape_close: "dir_shape s \<Longrightarrow> dir_shape (transport_close c s)"
  by (simp add: dir_shape_def transport_defs)

lemma dir_shape_leave: "dir_shape s \<Longrightarrow> dir_shape (handleUserLeave c s)"
  by (auto simp: dir_shape_def handleUserLeave_def transport_defs Let_def split: option.splits if_splits)

lemma dir_shape_join:
  assumes "dir_shape s" "inv_core s" "c \<in> sockets s"
  shows "dir_shape (handleJoinQueue c s)"
proof (cases "socketToRoom s c \<noteq> None \<or> c \<in> set (waitingQueue s)")
  case True
  then show ?thesis using assms by (simp add: handleJoinQueue_def)
next
  case idle: False
  show ?thesis
  proof (cases "waitingQueue s")
    case Nil
    then show ?thesis using assms idle
      by (simp add: handleJoinQueue_def dir_shape_def transport_defs)
  next
    case (Cons p rest)
    with assms(2,3) idle have v: "valid_id p" "valid_id c" "p \<noteq> c" "p \<noteq> []"
      by (auto simp: inv_core_def valid_id_def)
    have "\<exists>p' j. p' \<noteq> j \<and> valid_id p' \<and> valid_id j \<and> roomId p c = roomId p' j \<and> (x = p' \<or> x = j)"
      if "x = p \<or> x = c" for x
      using that v by blast
    then show ?thesis using assms(1) idle Cons v
      by (auto simp: handleJoinQueue_def dir_shape_def transport_defs Let_def)
  qed
qed

lemma dir_shape_signal: "dir_shape s \<Longrightarrow> dir_shape (handleSignal c t p s)"
  by (auto simp: dir_shape_def handleSignal_def transport_defs split: option.splits)

lemma dir_shape_message: "dir_shape s \<Longrightarrow> dir_shape (handleMessage c t s)"
  by (auto simp: dir_shape_def handleMessage_def transport_defs split: option.splits)

lemma dir_shape_dispatch: "dir_shape s \<Longrightarrow> inv_core s \<Longrightarrow> enabled s e \<Longrightarrow> dir_shape (dispatch e s)"
  by (cases e) (simp_all add: dir_shape_connect dir_shape_leave dir_shape_close dir_shape_join
      dir_shape_signal dir_shape_message handleConnection_def handleDisconnect_def handleLeaveRoom_def)

lemma reachable_dir_shape: "reachable s \<Longrightarrow> dir_shape s"
  by (induction rule: reachable.induct)
     (simp_all add: dir_shape_init dir_shape_dispatch reachable_inv_core)

lemma rooms_ok_init: "rooms_ok init"
  by (simp add: rooms_ok_def init_def)

lemma dir_shapeD:
  "dir_shape s \<Longrightarrow> socketToRoom s c = Some r \<Longrightarrow>
   \<exists>p j. p \<noteq> j \<and> valid_id p \<and> valid_id j \<and> r = roomId p j \<and> (c = p \<or> c = j)"
  unfolding dir_shape_def by blast

lemma shape_three:
  assumes "dir_shape s" "socketToRoom s a = Some r" "socketToRoom s b = Some r"
    "socketToRoom s x = Some r" "a \<noteq> b"
  shows "x = a \<or> x = b"
proof -
  from dir_shapeD[OF assms(1,2)] obtain p j where 1: "valid_id p" "r = roomId p j" "a = p \<or> a = j"
    by blast
  from dir_shapeD[OF assms(1,3)] obtain p' j' where 2: "valid_id p'" "r = roomId p' j'" "b = p' \<or> b = j'"
    by blast
  from dir_shapeD[OF assms(1,4)] obtain p'' j'' where 3: "valid_id p''" "r = roomId p'' j''" "x = p'' \<or> x = j''"
    by blast
  from 1 2 have "p' = p \<and> j' = j" by (simp add: valid_id_def roomId_inject)
  moreover from 1 3 have "p'' = p \<and> j'' = j" by (simp add: valid_id_def roomId_inject)
  ultimately show ?thesis using 1 2 3 assms(5) by auto
qed

lemma mapped_not_own_room:
  assumes "dir_shape s" "socketToRoom s c = Some r" "valid_id x"
  shows "r \<noteq> x"
  using dir_shapeD[OF assms(1,2)] assms(3) roomId_not_valid by blast

lemma rooms_ok_connect:
  assumes "rooms_ok s" "inv_core s" "dir_shape s" "c \<notin> sockets s" "valid_id c"
  shows "rooms_ok (transport_connect c s)"
proof -
  have "socketToRoom s x \<noteq> Some c" for x
    using assms(3,5) mapped_not_own_room by blast
  then show ?thesis using assms
    by (auto simp: rooms_ok_def transport_defs)
qed

lemma inv_core_room_nonempty: "inv_core s \<Longrightarrow> socketToRoom s c \<noteq> Some []"
  by (auto simp: inv_core_def)

lemma leave_sockets [simp]: "sockets (handleUserLeave c s) = sockets s"
  by (simp add: handleUserLeave_def transport_defs Let_def split: option.splits)

lemma leave_waitingQueue [simp]:
  "waitingQueue (handleUserLeave c s) = filter (\<lambda>i. i \<noteq> c) (waitingQueue s)"
  by (simp add: handleUserLeave_def transport_defs Let_def split: option.splits)

lemma leave_socketToRoom:
  "socketToRoom s c \<noteq> Some [] \<Longrightarrow>
   socketToRoom (handleUserLeave c s) = (socketToRoom s)(c := None)"
  by (auto simp: handleUserLeave_def transport_defs Let_def split: option.splits)

lemma leave_rooms:
  "socketToRoom s c \<noteq> Some [] \<Longrightarrow>
   rooms (handleUserLeave c s) =
     (case socketToRoom s c of None \<Rightarrow> rooms s | Some r \<Rightarrow> (rooms s)(r := []))"
  by (auto simp: handleUserLeave_def transport_defs Let_def split: option.splits)

lemma leave_outbox:
  "socketToRoom s c \<noteq> Some [] \<Longrightarrow>
   outbox (handleUserLeave c s) =
     outbox s @ (case socketToRoom s c of None \<Rightarrow> []
                 | Some r \<Rightarrow> map (\<lambda>x. (x, PartnerDisconnected)) (rooms s r))"
  by (auto simp: handleUserLeave_def transport_defs Let_def split: option.splits)

lemma rooms_okI:
  assumes "\<And>r c. c \<in> set (rooms s r) \<Longrightarrow> c \<in> sockets s \<and> (r = c \<or> socketToRoom s c = Some r)"
    and "\<And>c. c \<in> sockets s \<Longrightarrow> c \<in> set (rooms s c)"
    and "\<And>r. distinct (rooms s r)"
    and "\<And>a b r. socketToRoom s a = Some r \<Longrightarrow> socketToRoom s b = Some r \<Longrightarrow> a \<noteq> b \<Longrightarrow>
           a \<in> set (rooms s r) \<and> b \<in> set (rooms s r)"
  shows "rooms_ok s"
  unfolding rooms_ok_def using assms by blast

lemma rooms_ok_member:
  "rooms_ok s \<Longrightarrow> c \<in> set (rooms s r) \<Longrightarrow> c \<in> sockets s \<and> (r = c \<or> socketToRoom s c = Some r)"
  unfolding rooms_ok_def by blast

lemma rooms_ok_own: "rooms_ok s \<Longrightarrow> c \<in> sockets s \<Longrightarrow> c \<in> set (rooms s c)"
  unfolding rooms_ok_def by blast

lemma rooms_ok_distinct: "rooms_ok s \<Longrightarrow> distinct (rooms s r)"
  unfolding rooms_ok_def by blast

lemma rooms_ok_pair:
  "rooms_ok s \<Longrightarrow> socketToRoom s a = Some r \<Longrightarrow> socketToRoom s b = Some r \<Longrightarrow> a \<noteq> b \<Longrightarrow>
   a \<in> set (rooms s r) \<and> b \<in> set (rooms s r)"
  unfolding rooms_ok_def by blast

lemma rooms_ok_leave:
  assumes ok: "rooms_ok s" and core: "inv_core s" and shape: "dir_shape s"
  shows "rooms_ok (handleUserLeave c s)"
proof (cases "socketToRoom s c")
  case None
  then have "socketToRoom (handleUserLeave c s) = socketToRoom s" "rooms (handleUserLeave c s) = rooms s"
    by (simp_all add: leave_socketToRoom leave_rooms fun_upd_idem)
  then show ?thesis using ok
    unfolding rooms_ok_def leave_sockets by metis
next
  case (Some r)
  have ne: "socketToRoom s c \<noteq> Some []" using core by (rule inv_core_room_nonempty)
  have own: "r \<noteq> x" if "x \<in> sockets s" for x
    using mapped_not_own_room[OF shape Some] that core by (auto simp: inv_core_def)
  note m = leave_socketToRoom[OF ne] and rm = leave_rooms[OF ne]
  show ?thesis
  proof (rule rooms_okI)
    fix r' x assume "x \<in> set (rooms (handleUserLeave c s) r')"
    then have r': "r' \<noteq> r" and x: "x \<in> set (rooms s r')"
      by (auto simp: rm Some split: if_splits)
    from rooms_ok_member[OF ok x] r' Some
    show "x \<in> sockets (handleUserLeave c s) \<and> (r' = x \<or> socketToRoom (handleUserLeave c s) x = Some r')"
      by (auto simp: m)
  next
    fix x assume "x \<in> sockets (handleUserLeave c s)"
    then show "x \<in> set (rooms (handleUserLeave c s) x)"
      using rooms_ok_own[OF ok, of x] own[of x] by (auto simp: rm Some)
  next
    fix r' show "distinct (rooms (handleUserLeave c s) r')"
      using rooms_ok_distinct[OF ok] by (simp add: rm Some)
  next
    fix a b r'
    assume "socketToRoom (handleUserLeave c s) a = Some r'"
      "socketToRoom (handleUserLeave c s) b = Some r'" "a \<noteq> b"
    then have ab: "socketToRoom s a = Some r'" "socketToRoom s b = Some r'" "a \<noteq> c" "b \<noteq> c" "a \<noteq> b"
      by (auto simp: m split: if_splits)
    have "r' \<noteq> r" using shape_three[OF shape ab(1,2) _ ab(5), of c] Some ab(3,4) by auto
    then show "a \<in> set (rooms (handleUserLeave c s) r') \<and> b \<in> set (rooms (handleUserLeave c s) r')"
      using rooms_ok_pair[OF ok ab(1,2,5)] by (simp add: rm Some)
  qed
qed

lemma transport_close_sockets [simp]: "sockets (transport_close c s) = sockets s - {c}"
  by (simp add: transport_close_def)

lemma transport_close_waitingQueue [simp]: "waitingQueue (transport_close c s) = waitingQueue s"
  by (simp add: transport_close_def)

lemma close_socketToRoom:
  "socketToRoom (handleUserLeave c (transport_close c s)) = socketToRoom (handleUserLeave c s)"
  by (auto simp: handleUserLeave_def transport_defs Let_def split: option.splits)

lemma close_rooms:
  "rooms (handleUserLeave c (transport_close c s)) r = removeAll c (rooms (handleUserLeave c s) r)"
  by (auto simp: handleUserLeave_def transport_defs Let_def split: option.splits)

lemma close_outbox:
  "socketToRoom s c \<noteq> Some [] \<Longrightarrow>
   outbox (handleUserLeave c (transport_close c s)) =
     outbox s @ (case socketToRoom s c of None \<Rightarrow> []
                 | Some r \<Rightarrow> map (\<lambda>x. (x, PartnerDisconnected)) (removeAll c (rooms s r)))"
  by (auto simp: handleUserLeave_def transport_defs Let_def split: option.splits)

lemma rooms_ok_close:
  assumes ok: "rooms_ok s" and core: "inv_core s" and shape: "dir_shape s"
  shows "rooms_ok (handleUserLeave c (transport_close c s))" (is "rooms_ok ?t")
proof -
  have ok': "rooms_ok (handleUserLeave c s)" using assms by (rule rooms_ok_leave)
  have dom: "socketToRoom (handleUserLeave c s) c = None"
    using leave_socketToRoom[OF inv_core_room_nonempty[OF core]] by simp
  show ?thesis
  proof (rule rooms_okI)
    fix r x assume "x \<in> set (rooms ?t r)"
    then show "x \<in> sockets ?t \<and> (r = x \<or> socketToRoom ?t x = Some r)"
      using rooms_ok_member[OF ok', of x r] by (simp add: close_rooms close_socketToRoom)
  next
    fix x assume "x \<in> sockets ?t"
    then show "x \<in> set (rooms ?t x)"
      using rooms_ok_own[OF ok', of x] by (simp add: close_rooms)
  next
    fix r show "distinct (rooms ?t r)"
      using rooms_ok_distinct[OF ok'] by (simp add: close_rooms distinct_removeAll)
  next
    fix a b r
    assume "socketToRoom ?t a = Some r" "socketToRoom ?t b = Some r" "a \<noteq> b"
    then have h: "socketToRoom (handleUserLeave c s) a = Some r"
      "socketToRoom (handleUserLeave c s) b = Some r" "a \<noteq> b"
      by (simp_all add: close_socketToRoom)
    then show "a \<in> set (rooms ?t r) \<and> b \<in> set (rooms ?t r)"
      using rooms_ok_pair[OF ok' h] dom by (auto simp: close_rooms)
  qed
qed

lemma join_ignored:
  "socketToRoom s c \<noteq> None \<or> c \<in> set (waitingQueue s) \<Longrightarrow> handleJoinQueue c s = s"
  by (simp add: handleJoinQueue_def)

lemma join_sockets [simp]: "sockets (handleJoinQueue c s) = sockets s"
  by (simp add: handleJoinQueue_def transport_defs Let_def split: list.splits)

lemma join_empty:
  assumes "socketToRoom s c = None" "waitingQueue s = []"
  shows "waitingQueue (handleJoinQueue c s) = [c]"
    and "socketToRoom (handleJoinQueue c s) = socketToRoom s"
    and "rooms (handleJoinQueue c s) = rooms s"
    and "outbox (handleJoinQueue c s) = outbox s @ [(c, WaitingForMatch)]"
  using assms by (simp_all add: handleJoinQueue_def transport_defs)

lemma join_match:
  assumes "socketToRoom s c = None" "c \<notin> set (waitingQueue s)" "waitingQueue s = p # rest"
    "p \<noteq> []" "p \<in> sockets s"
  shows "waitingQueue (handleJoinQueue c s) = rest"
    and "socketToRoom (handleJoinQueue c s) = (socketToRoom s)(c \<mapsto> roomId p c, p \<mapsto> roomId p c)"
    and "rooms (handleJoinQueue c s) =
           (rooms s)(roomId p c := set_add (set_add (rooms s (roomId p c)) c) p)"
    and "outbox (handleJoinQueue c s) =
           outbox s @ map (\<lambda>x. (x, MatchFound (roomId p c))) (rooms (handleJoinQueue c s) (roomId p c))
             @ [(c, IsInitiator True)]
             @ map (\<lambda>x. (x, IsInitiator False)) (rooms (handleJoinQueue c s) p)"
  using assms by (auto simp: handleJoinQueue_def transport_defs Let_def set_add_def)

lemma unmapped_room:
  assumes shape: "dir_shape s" and "valid_id p" "valid_id c"
    and "socketToRoom s p = None" "socketToRoom s c = None"
  shows "socketToRoom s x \<noteq> Some (roomId p c)"
proof
  assume x: "socketToRoom s x = Some (roomId p c)"
  from dir_shapeD[OF shape x] obtain p' j where
    "valid_id p'" "roomId p c = roomId p' j" "x = p' \<or> x = j" by blast
  with assms(2) have "x = p \<or> x = c" by (auto simp: valid_id_def roomId_inject)
  with x assms(4,5) show False by auto
qed

lemma fresh_room_empty:
  assumes ok: "rooms_ok s" and core: "inv_core s" and shape: "dir_shape s"
    and "valid_id p" "valid_id c" "socketToRoom s p = None" "socketToRoom s c = None"
  shows "rooms s (roomId p c) = []"
proof (rule ccontr)
  assume "rooms s (roomId p c) \<noteq> []"
  then obtain x where x: "x \<in> set (rooms s (roomId p c))" by (cases "rooms s (roomId p c)") auto
  from rooms_ok_member[OF ok x] have "x \<in> sockets s" "roomId p c = x \<or> socketToRoom s x = Some (roomId p c)"
    by auto
  moreover have "valid_id x" using core \<open>x \<in> sockets s\<close> by (auto simp: inv_core_def)
  ultimately show False
    using unmapped_room[OF shape assms(4-7), of x] roomId_not_valid[OF assms(4,5)] by auto
qed

lemma rooms_ok_join:
  assumes ok: "rooms_ok s" and core: "inv_core s" and shape: "dir_shape s" and live: "c \<in> sockets s"
  shows "rooms_ok (handleJoinQueue c s)" (is "rooms_ok ?t")
proof (cases "socketToRoom s c \<noteq> None \<or> c \<in> set (waitingQueue s)")
  case True
  then show ?thesis using ok by (simp add: join_ignored)
next
  case False
  then have idle: "socketToRoom s c = None" "c \<notin> set (waitingQueue s)" by auto
  show ?thesis
  proof (cases "waitingQueue s")
    case Nil
    show ?thesis using ok unfolding rooms_ok_def join_empty[OF idle(1) Nil] join_sockets .
  next
    case (Cons p rest)
    have p: "p \<in> sockets s" "valid_id p" "p \<noteq> c" "socketToRoom s p = None" "p \<noteq> []"
      using core Cons idle by (auto simp: inv_core_def valid_id_def)
    have c: "valid_id c" using core live by (auto simp: inv_core_def)
    note f = join_match[OF idle Cons p(5,1)]
    let ?r = "roomId p c"
    have empty: "rooms s ?r = []" using fresh_room_empty[OF ok core shape p(2) c p(4) idle(1)] .
    have unm: "socketToRoom s x \<noteq> Some ?r" for x
      using unmapped_room[OF shape p(2) c p(4) idle(1)] .
    have rm: "rooms ?t = (rooms s)(?r := [c, p])"
      using p(3) by (simp add: f(3) empty set_add_def)
    have nv: "?r \<noteq> x" if "x \<in> sockets s" for x
      using roomId_not_valid[OF p(2) c] core that by (auto simp: inv_core_def)
    show ?thesis
    proof (rule rooms_okI)
      fix r x assume "x \<in> set (rooms ?t r)"
      then consider "r = ?r" "x = c \<or> x = p" | "r \<noteq> ?r" "x \<in> set (rooms s r)"
        by (auto simp: rm split: if_splits)
      then show "x \<in> sockets ?t \<and> (r = x \<or> socketToRoom ?t x = Some r)"
      proof cases
        case 1
        then show ?thesis using live p(1) by (auto simp: f(2))
      next
        case 2
        from rooms_ok_member[OF ok 2(2)] idle(1) p(4) show ?thesis
          by (auto simp: f(2))
      qed
    next
      fix x assume "x \<in> sockets ?t"
      then show "x \<in> set (rooms ?t x)"
        using rooms_ok_own[OF ok, of x] nv[of x] by (simp add: rm)
    next
      fix r show "distinct (rooms ?t r)"
        using rooms_ok_distinct[OF ok, of r] p(3) by (simp add: rm)
    next
      fix a b r
      assume h: "socketToRoom ?t a = Some r" "socketToRoom ?t b = Some r" "a \<noteq> b"
      show "a \<in> set (rooms ?t r) \<and> b \<in> set (rooms ?t r)"
      proof (cases "r = ?r")
        case True
        with h unm[of a] unm[of b] have "a = c \<or> a = p" "b = c \<or> b = p"
          by (auto simp: f(2) split: if_splits)
        then show ?thesis using True by (auto simp: rm)
      next
        case False
        with h have "socketToRoom s a = Some r" "socketToRoom s b = Some r"
          by (auto simp: f(2) split: if_splits)
        from rooms_ok_pair[OF ok this h(3)] False show ?thesis by (simp add: rm)
      qed
    qed
  qed
qed

lemma rooms_ok_signal: "rooms_ok s \<Longrightarrow> rooms_ok (handleSignal c t p s)"
  by (auto simp: rooms_ok_def handleSignal_def transport_defs split: option.splits)

lemma rooms_ok_message: "rooms_ok s \<Longrightarrow> rooms_ok (handleMessage c t s)"
  by (auto simp: rooms_ok_def handleMessage_def transport_defs split: option.splits)

lemma rooms_ok_dispatch:
  "rooms_ok s \<Longrightarrow> inv_core s \<Longrightarrow> dir_shape s \<Longrightarrow> enabled s e \<Longrightarrow> rooms_ok (dispatch e s)"
  by (cases e) (simp_all add: rooms_ok_connect rooms_ok_leave rooms_ok_close rooms_ok_join
      rooms_ok_signal rooms_ok_message handleConnection_def handleDisconnect_def handleLeaveRoom_def)

lemma reachable_rooms_ok: "reachable s \<Longrightarrow> rooms_ok s"
  by (induction rule: reachable.induct)
     (simp_all add: rooms_ok_init rooms_ok_dispatch reachable_inv_core reachable_dir_shape)

section \<open>Evaluating the examples\<close>

lemmas example_defs = pairAB_def idA_def idB_def idC_def idD_def init_def valid_id_def roomId_def
  transport_defs handler_defs Let_def

lemma feasible_pairAB: "feasible pairAB init"
  by (simp add: example_defs)

lemma feasible_waitA: "feasible waitA init"
  by (simp add: waitA_def example_defs)

lemma feasible_connectAB: "feasible connectAB init"
  by (simp add: connectAB_def example_defs)

section \<open>Consequences of the invariants\<close>

lemma own_room:
  assumes ok: "rooms_ok s" and core: "inv_core s" and shape: "dir_shape s" and live: "c \<in> sockets s"
  shows "rooms s c = [c]"
proof -
  have v: "valid_id c" using core live by (auto simp: inv_core_def)
  have "x = c" if "x \<in> set (rooms s c)" for x
    using rooms_ok_member[OF ok that] mapped_not_own_room[OF shape _ v, of x] by auto
  moreover have "c \<in> set (rooms s c)" using rooms_ok_own[OF ok live] .
  ultimately have "set (rooms s c) = {c}" by auto
  with rooms_ok_distinct[OF ok, of c] show ?thesis
    by (cases "rooms s c") (auto simp: insert_eq_iff dest: subset_singletonD)
qed

lemma join_match_dir:
  assumes "isIdle s c" "waitingQueue s = p # rest" "p \<noteq> []"
  shows "waitingQueue (handleJoinQueue c s) = rest"
    and "socketToRoom (handleJoinQueue c s) = (socketToRoom s)(c \<mapsto> roomId p c, p \<mapsto> roomId p c)"
  using assms
  by (auto simp: isIdle_def isQueued_def isPaired_def handleJoinQueue_def transport_defs Let_def)

lemma join_empty_dir:
  assumes "isIdle s c" "waitingQueue s = []"
  shows "waitingQueue (handleJoinQueue c s) = [c]"
    and "socketToRoom (handleJoinQueue c s) = socketToRoom s"
  using assms by (simp_all add: isIdle_def isQueued_def isPaired_def join_empty)

lemma join_match_other_idle:
  assumes "isIdle s c" "waitingQueue s = p # rest" "p \<noteq> []" "isIdle s y" "y \<noteq> c"
  shows "isIdle (handleJoinQueue c s) y"
  using assms(2,4,5) unfolding isIdle_def isQueued_def isPaired_def join_match_dir[OF assms(1-3)]
  by auto

section \<open>Properties of the gateway\<close>

text \<open>
  C1 (cleanup completeness) at a concrete run: A and B are paired and A disconnects. A's
  directory entry is gone and B receives \<open>partner_disconnected\<close> once, but B's entry is
  still there, and B's following \<open>join_queue\<close> changes nothing: B is neither queued nor matched.
\<close>
theorem partner_stuck_after_disconnect:
  "feasible (pairAB @ [Disconnect idA, JoinQueue idB]) init \<and>
   socketToRoom (exec (pairAB @ [Disconnect idA]) init) idA = None \<and>
   socketToRoom (exec (pairAB @ [Disconnect idA]) init) idB = Some (roomId idA idB) \<and>
   outbox (exec (pairAB @ [Disconnect idA]) init) =
     outbox (exec pairAB init) @ [(idB, PartnerDisconnected)] \<and>
   exec (pairAB @ [Disconnect idA, JoinQueue idB]) init = exec (pairAB @ [Disconnect idA]) init"
  by (simp add: example_defs)

text \<open>
  C2 (session symmetry) at a concrete run: A and B are paired and A leaves the room.
  Afterwards B is still mapped to the room of A and B while A is not.
\<close>
theorem directory_asymmetric_after_leave:
  "feasible (pairAB @ [LeaveRoom idA]) init \<and>
   socketToRoom (exec (pairAB @ [LeaveRoom idA]) init) idA = None \<and>
   socketToRoom (exec (pairAB @ [LeaveRoom idA]) init) idB = Some (roomId idA idB) \<and>
   \<not> session_symmetric (exec (pairAB @ [LeaveRoom idA]) init) idA idB"
  by (simp add: session_symmetric_def example_defs)

text \<open>
  C3 (state exclusivity). In every reachable state no identifier is both in
  \<open>waitingQueue\<close> and in \<open>socketToRoom\<close>, so each identifier is in exactly one of
  the states idle, queued, paired.
\<close>

theorem state_exclusivity:
  "reachable s \<Longrightarrow>
     \<not> (c \<in> set (waitingQueue s) \<and> socketToRoom s c \<noteq> None) \<and>
     (isIdle s c \<and> \<not> isQueued s c \<and> \<not> isPaired s c \<or>
      \<not> isIdle s c \<and> isQueued s c \<and> \<not> isPaired s c \<or>
      \<not> isIdle s c \<and> \<not> isQueued s c \<and> isPaired s c)"
proof -
  assume "reachable s"
  then have "inv_core s" by (rule reachable_inv_core)
  then have "\<not> (c \<in> set (waitingQueue s) \<and> socketToRoom s c \<noteq> None)"
    by (auto simp: inv_core_def)
  then show ?thesis by (auto simp: isIdle_def isQueued_def isPaired_def)
qed

theorem state_exclusivity_witness:
  "reachable (exec pairAB init) \<and>
   \<not> (idA \<in> set (waitingQueue (exec pairAB init)) \<and> socketToRoom (exec pairAB init) idA \<noteq> None) \<and>
   isPaired (exec pairAB init) idA \<and> \<not> isQueued (exec pairAB init) idA \<and> \<not> isIdle (exec pairAB init) idA"
proof -
  have r: "reachable (exec pairAB init)"
    by (rule exec_reachable[OF reachable_init feasible_pairAB])
  have p: "isPaired (exec pairAB init) idA"
    by (simp add: isPaired_def example_defs)
  show ?thesis using r p state_exclusivity [OF r, of idA] by blast
qed

text \<open>
  C4 (queue uniqueness). In every reachable state \<open>waitingQueue\<close> has no duplicate, and
  \<open>join_queue\<close> from a connection that is queued or paired leaves the whole state
  unchanged, so it appends nothing.
\<close>

theorem queue_uniqueness:
  "reachable s \<Longrightarrow>
     distinct (waitingQueue s) \<and>
     (isQueued s c \<or> isPaired s c \<longrightarrow> handleJoinQueue c s = s)"
proof -
  assume "reachable s"
  then have "inv_core s" by (rule reachable_inv_core)
  then have "distinct (waitingQueue s)" by (simp add: inv_core_def)
  moreover have "isQueued s c \<or> isPaired s c \<longrightarrow> handleJoinQueue c s = s"
    by (auto simp: isQueued_def isPaired_def join_ignored)
  ultimately show ?thesis by simp
qed

theorem queue_uniqueness_witness:
  "reachable (exec waitA init) \<and> isQueued (exec waitA init) idA \<and>
   waitingQueue (exec waitA init) = [idA] \<and> distinct (waitingQueue (exec waitA init)) \<and>
   handleJoinQueue idA (exec waitA init) = exec waitA init"
proof -
  have r: "reachable (exec waitA init)"
    by (rule exec_reachable[OF reachable_init feasible_waitA])
  have q: "waitingQueue (exec waitA init) = [idA]"
    by (simp add: waitA_def example_defs)
  then have "isQueued (exec waitA init) idA" by (simp add: isQueued_def)
  then show ?thesis using r q queue_uniqueness [OF r, of idA] by simp
qed

text \<open>
  C5 (FIFO pairing). \<open>join_queue\<close> from an idle connection \<open>c\<close>: when the queue is
  non-empty its head \<open>p\<close> is removed and \<open>c\<close> and \<open>p\<close> are both mapped to the room
  of \<open>p\<close> and \<open>c\<close>; when the queue is empty \<open>c\<close> is appended and the directory is
  unchanged. With \<open>a\<close> and \<open>b\<close> waiting in that order, a joining \<open>x\<close> is paired with
  \<open>a\<close> and a then joining \<open>y\<close> with \<open>b\<close>.
\<close>
theorem fifo_pairing:
  "(isIdle s c \<and> waitingQueue s = p # rest \<and> p \<noteq> [] \<longrightarrow>
      waitingQueue (handleJoinQueue c s) = rest \<and>
      socketToRoom (handleJoinQueue c s) = (socketToRoom s)(c \<mapsto> roomId p c, p \<mapsto> roomId p c)) \<and>
   (isIdle s c \<and> waitingQueue s = [] \<longrightarrow>
      waitingQueue (handleJoinQueue c s) = [c] \<and>
      socketToRoom (handleJoinQueue c s) = socketToRoom s) \<and>
   (waitingQueue t = [a, b] \<and> a \<noteq> [] \<and> b \<noteq> [] \<and> isIdle t x \<and> isIdle t y \<and> x \<noteq> y \<longrightarrow>
      waitingQueue (handleJoinQueue x t) = [b] \<and>
      socketToRoom (handleJoinQueue x t) = (socketToRoom t)(x \<mapsto> roomId a x, a \<mapsto> roomId a x) \<and>
      waitingQueue (handleJoinQueue y (handleJoinQueue x t)) = [] \<and>
      socketToRoom (handleJoinQueue y (handleJoinQueue x t)) =
        (socketToRoom t)(x \<mapsto> roomId a x, a \<mapsto> roomId a x, y \<mapsto> roomId b y, b \<mapsto> roomId b y))"
proof (intro conjI impI)
  assume h: "isIdle s c \<and> waitingQueue s = p # rest \<and> p \<noteq> []"
  then show "waitingQueue (handleJoinQueue c s) = rest"
    and "socketToRoom (handleJoinQueue c s) = (socketToRoom s)(c \<mapsto> roomId p c, p \<mapsto> roomId p c)"
    by (simp_all add: join_match_dir)
next
  assume h: "isIdle s c \<and> waitingQueue s = []"
  then show "waitingQueue (handleJoinQueue c s) = [c]"
    and "socketToRoom (handleJoinQueue c s) = socketToRoom s"
    by (simp_all add: join_empty_dir)
next
  assume h: "waitingQueue t = [a, b] \<and> a \<noteq> [] \<and> b \<noteq> [] \<and> isIdle t x \<and> isIdle t y \<and> x \<noteq> y"
  then have 1: "isIdle t x" "waitingQueue t = a # [b]" "a \<noteq> []" by simp_all
  note f = join_match_dir[OF 1]
  have 2: "isIdle (handleJoinQueue x t) y" "waitingQueue (handleJoinQueue x t) = b # []" "b \<noteq> []"
    using join_match_other_idle[OF 1, of y] h f(1) by auto
  note g = join_match_dir[OF 2]
  show "waitingQueue (handleJoinQueue x t) = [b]" by (rule f(1))
  show "socketToRoom (handleJoinQueue x t) = (socketToRoom t)(x \<mapsto> roomId a x, a \<mapsto> roomId a x)"
    by (rule f(2))
  show "waitingQueue (handleJoinQueue y (handleJoinQueue x t)) = []" by (rule g(1))
  show "socketToRoom (handleJoinQueue y (handleJoinQueue x t)) =
        (socketToRoom t)(x \<mapsto> roomId a x, a \<mapsto> roomId a x, y \<mapsto> roomId b y, b \<mapsto> roomId b y)"
    by (simp add: g(2) f(2))
qed

theorem fifo_pairing_witness:
  "isIdle (exec waitA init) idB \<and> waitingQueue (exec waitA init) = [idA] \<and> idA \<noteq> [] \<and>
   waitingQueue (handleJoinQueue idB (exec waitA init)) = [] \<and>
   socketToRoom (handleJoinQueue idB (exec waitA init)) idB = Some (roomId idA idB) \<and>
   socketToRoom (handleJoinQueue idB (exec waitA init)) idA = Some (roomId idA idB) \<and>
   isIdle (init :: string gateway) idA \<and> waitingQueue (init :: string gateway) = [] \<and>
   waitingQueue (handleJoinQueue idA (init :: string gateway)) = [idA] \<and>
   waitingQueue twoWaiting = [idA, idB] \<and> idB \<noteq> [] \<and>
   isIdle twoWaiting idC \<and> isIdle twoWaiting idD \<and> idC \<noteq> idD \<and>
   socketToRoom (handleJoinQueue idC twoWaiting) idC = Some (roomId idA idC) \<and>
   socketToRoom (handleJoinQueue idC twoWaiting) idA = Some (roomId idA idC) \<and>
   waitingQueue (handleJoinQueue idC twoWaiting) = [idB] \<and>
   socketToRoom (handleJoinQueue idD (handleJoinQueue idC twoWaiting)) idD = Some (roomId idB idD) \<and>
   socketToRoom (handleJoinQueue idD (handleJoinQueue idC twoWaiting)) idB = Some (roomId idB idD) \<and>
   waitingQueue (handleJoinQueue idD (handleJoinQueue idC twoWaiting)) = []"
proof -
  have ids: "idA \<noteq> []" "idB \<noteq> []" "idC \<noteq> idD" "idA \<noteq> idB" "idA \<noteq> idC" "idA \<noteq> idD"
    "idB \<noteq> idC" "idB \<noteq> idD"
    by (simp_all add: idA_def idB_def idC_def idD_def)
  have w: "isIdle (exec waitA init) idB" "waitingQueue (exec waitA init) = [idA]"
    by (simp_all add: isIdle_def isQueued_def isPaired_def waitA_def example_defs)
  have i: "isIdle (init :: string gateway) idA" "waitingQueue (init :: string gateway) = []"
    by (simp_all add: isIdle_def isQueued_def isPaired_def init_def)
  have t: "waitingQueue twoWaiting = [idA, idB]" "isIdle twoWaiting idC" "isIdle twoWaiting idD"
    using ids by (simp_all add: isIdle_def isQueued_def isPaired_def twoWaiting_def init_def)
  show ?thesis
    using ids w i t
      fifo_pairing [of "exec waitA init" idB idA "[]" twoWaiting idA idB idC idD]
      fifo_pairing [of "init :: string gateway" idA idA "[]" twoWaiting idA idB idC idD]
    by simp
qed

text \<open>
  C6 (basic match and roles). From a reachable state with an empty queue, idle live
  \<open>x\<close> joins and receives \<open>waiting_for_match\<close>; then idle live \<open>y\<close> joins: both
  receive \<open>match_found\<close> with the same room, the joiner \<open>y\<close> receives
  \<open>is_initiator\<close> true and the earlier waiter \<open>x\<close> receives it false, and nothing else is sent.
\<close>
theorem basic_match:
  assumes "reachable s" "x \<in> sockets s" "y \<in> sockets s" "x \<noteq> y"
    "isIdle s x" "isIdle s y" "waitingQueue s = []"
  shows "outbox (handleJoinQueue x s) = outbox s @ [(x, WaitingForMatch)] \<and>
         outbox (handleJoinQueue y (handleJoinQueue x s)) =
           outbox (handleJoinQueue x s) @
             [(y, MatchFound (roomId x y)), (x, MatchFound (roomId x y)),
              (y, IsInitiator True), (x, IsInitiator False)]"
proof -
  let ?s1 = "handleJoinQueue x s"
  let ?r = "roomId x y"
  have mx: "socketToRoom s x = None" and my: "socketToRoom s y = None"
    using assms(5,6) by (simp_all add: isIdle_def isPaired_def)
  note e = join_empty[OF mx assms(7)]
  have r1: "reachable ?s1"
    using reachable_step[OF assms(1), of "JoinQueue x"] assms(2) by simp
  have ok: "rooms_ok ?s1" and core: "inv_core ?s1" and shape: "dir_shape ?s1"
    using r1 by (simp_all add: reachable_rooms_ok reachable_inv_core reachable_dir_shape)
  have live: "x \<in> sockets ?s1" "y \<in> sockets ?s1" using assms(2,3) by simp_all
  have v: "valid_id x" "valid_id y" "x \<noteq> []"
    using core live by (auto simp: inv_core_def valid_id_def)
  have m1: "socketToRoom ?s1 x = None" "socketToRoom ?s1 y = None"
    using mx my by (simp_all add: e(2))
  have q1: "waitingQueue ?s1 = x # []" "y \<notin> set (waitingQueue ?s1)"
    using assms(4) by (simp_all add: e(1))
  note f = join_match[OF m1(2) q1(2) q1(1) v(3) live(1)]
  have fresh: "rooms ?s1 ?r = []"
    using fresh_room_empty[OF ok core shape v(1,2) m1] .
  have own: "rooms ?s1 x = [x]" using own_room[OF ok core shape live(1)] .
  have nx: "?r \<noteq> x" using roomId_not_valid[OF v(1,2)] v(1) by auto
  have a: "rooms (handleJoinQueue y ?s1) ?r = [y, x]"
    using assms(4) by (simp add: f(3) fresh set_add_def)
  have b: "rooms (handleJoinQueue y ?s1) x = [x]"
    using nx by (simp add: f(3) own)
  show ?thesis by (simp add: e(4) f(4) a b)
qed

theorem basic_match_witness:
  "reachable (exec connectAB init) \<and> idA \<in> sockets (exec connectAB init) \<and>
   idB \<in> sockets (exec connectAB init) \<and> idA \<noteq> idB \<and>
   isIdle (exec connectAB init) idA \<and> isIdle (exec connectAB init) idB \<and>
   waitingQueue (exec connectAB init) = [] \<and>
   outbox (handleJoinQueue idA (exec connectAB init)) = [(idA, WaitingForMatch)] \<and>
   outbox (handleJoinQueue idB (handleJoinQueue idA (exec connectAB init))) =
     [(idA, WaitingForMatch),
      (idB, MatchFound (roomId idA idB)), (idA, MatchFound (roomId idA idB)),
      (idB, IsInitiator True), (idA, IsInitiator False)]"
proof -
  have r: "reachable (exec connectAB init)"
    by (rule exec_reachable[OF reachable_init feasible_connectAB])
  have l: "idA \<in> sockets (exec connectAB init)" "idB \<in> sockets (exec connectAB init)"
    by (simp_all add: connectAB_def example_defs)
  have ne: "idA \<noteq> idB" by (simp add: idA_def idB_def)
  have i: "isIdle (exec connectAB init) idA" "isIdle (exec connectAB init) idB"
    by (simp_all add: isIdle_def isQueued_def isPaired_def connectAB_def example_defs)
  have q: "waitingQueue (exec connectAB init) = []"
    by (simp add: connectAB_def example_defs)
  have o: "outbox (exec connectAB init) = []"
    by (simp add: connectAB_def example_defs)
  show ?thesis using r l ne i q o basic_match [OF r l ne i q] by simp
qed

text \<open>
  C7 (relay contract). In a reachable state, \<open>signal\<close> and \<open>send_message\<close> from a
  sender without a directory entry change nothing. From a sender mapped to room \<open>r\<close>
  only the outbox grows: the signal goes out unchanged with the sender's identifier, the
  text goes out unchanged with sender \<open>partner\<close>; the recipients never include the
  sender, are at most one, are mapped to the same room, and are exactly the other member
  when one is mapped to \<open>r\<close>.
\<close>
theorem relay_contract:
  "reachable s \<Longrightarrow>
     (socketToRoom s c = None \<longrightarrow>
        handleSignal c target signal s = s \<and> handleMessage c msg s = s) \<and>
     (socketToRoom s c = Some r \<longrightarrow>
        handleSignal c target signal s =
          s\<lparr>outbox := outbox s @
               map (\<lambda>x. (x, SignalEv c signal)) (filter (\<lambda>x. x \<noteq> c) (rooms s r))\<rparr> \<and>
        handleMessage c msg s =
          s\<lparr>outbox := outbox s @
               map (\<lambda>x. (x, ReceiveMessage ''partner'' msg)) (filter (\<lambda>x. x \<noteq> c) (rooms s r))\<rparr> \<and>
        c \<notin> set (filter (\<lambda>x. x \<noteq> c) (rooms s r)) \<and>
        length (filter (\<lambda>x. x \<noteq> c) (rooms s r)) \<le> 1 \<and>
        (\<forall>x \<in> set (filter (\<lambda>x. x \<noteq> c) (rooms s r)). socketToRoom s x = Some r) \<and>
        (\<forall>b. b \<noteq> c \<and> socketToRoom s b = Some r \<longrightarrow> filter (\<lambda>x. x \<noteq> c) (rooms s r) = [b]))"
proof (intro conjI impI)
  assume "socketToRoom s c = None"
  then show "handleSignal c target signal s = s" "handleMessage c msg s = s"
    by (simp_all add: handleSignal_def handleMessage_def)
next
  assume r: "reachable s" and m: "socketToRoom s c = Some r"
  have ok: "rooms_ok s" and core: "inv_core s" and shape: "dir_shape s"
    using r by (simp_all add: reachable_rooms_ok reachable_inv_core reachable_dir_shape)
  let ?rc = "filter (\<lambda>x. x \<noteq> c) (rooms s r)"
  have ne: "r \<noteq> []" using inv_core_room_nonempty[OF core, of c] m by auto
  show "handleSignal c target signal s = s\<lparr>outbox := outbox s @ map (\<lambda>x. (x, SignalEv c signal)) ?rc\<rparr>"
    using m ne by (simp add: handleSignal_def client_to_emit_def)
  show "handleMessage c msg s =
          s\<lparr>outbox := outbox s @ map (\<lambda>x. (x, ReceiveMessage ''partner'' msg)) ?rc\<rparr>"
    using m ne by (simp add: handleMessage_def client_to_emit_def)
  show "c \<notin> set ?rc" by simp
  have mem: "socketToRoom s x = Some r" if "x \<in> set (rooms s r)" for x
  proof -
    from rooms_ok_member[OF ok that] have "x \<in> sockets s" "r = x \<or> socketToRoom s x = Some r"
      by auto
    moreover have "valid_id x" using core \<open>x \<in> sockets s\<close> by (auto simp: inv_core_def)
    ultimately show ?thesis using mapped_not_own_room[OF shape m, of x] by auto
  qed
  then show "\<forall>x \<in> set ?rc. socketToRoom s x = Some r" by simp
  have d: "distinct ?rc" using rooms_ok_distinct[OF ok, of r] by simp
  have two: "x = y" if "x \<in> set ?rc" "y \<in> set ?rc" for x y
  proof (rule ccontr)
    assume "x \<noteq> y"
    from that have "socketToRoom s x = Some r" "socketToRoom s y = Some r" "x \<noteq> c" "y \<noteq> c"
      using mem by auto
    with shape_three[OF shape this(1,2) m \<open>x \<noteq> y\<close>] show False by auto
  qed
  show "length ?rc \<le> 1"
  proof (cases ?rc)
    case Nil then show ?thesis by simp
  next
    case (Cons u us)
    have "us = []"
    proof (cases us)
      case Nil then show ?thesis .
    next
      case (Cons w ws)
      with \<open>?rc = u # us\<close> have "u \<in> set ?rc" "w \<in> set ?rc" by simp_all
      from two[OF this] d \<open>?rc = u # us\<close> Cons show ?thesis by simp
    qed
    with Cons show ?thesis by simp
  qed
  then have len: "length ?rc \<le> 1" .
  show "\<forall>b. b \<noteq> c \<and> socketToRoom s b = Some r \<longrightarrow> ?rc = [b]"
  proof (intro allI impI)
    fix b assume b: "b \<noteq> c \<and> socketToRoom s b = Some r"
    then have "b \<in> set (rooms s r)" using rooms_ok_pair[OF ok _ m, of b] by auto
    with b have "b \<in> set ?rc" by simp
    with len show "?rc = [b]"
      by (cases ?rc) (auto simp: Suc_le_eq)
  qed
qed

theorem relay_contract_witness:
  "reachable (exec pairAB init) \<and>
   socketToRoom (exec pairAB init) idC = None \<and>
   handleSignal idC ''partner'' ''offer'' (exec pairAB init) = exec pairAB init \<and>
   handleMessage idC ''hi'' (exec pairAB init) = exec pairAB init \<and>
   socketToRoom (exec pairAB init) idA = Some (roomId idA idB) \<and>
   idB \<noteq> idA \<and> socketToRoom (exec pairAB init) idB = Some (roomId idA idB) \<and>
   handleSignal idA ''partner'' ''offer'' (exec pairAB init) =
     (exec pairAB init)\<lparr>outbox := outbox (exec pairAB init) @ [(idB, SignalEv idA ''offer'')]\<rparr> \<and>
   handleMessage idA ''hi'' (exec pairAB init) =
     (exec pairAB init)\<lparr>outbox := outbox (exec pairAB init) @ [(idB, ReceiveMessage ''partner'' ''hi'')]\<rparr>"
proof -
  have r: "reachable (exec pairAB init)"
    by (rule exec_reachable[OF reachable_init feasible_pairAB])
  have m: "socketToRoom (exec pairAB init) idC = None"
    "socketToRoom (exec pairAB init) idA = Some (roomId idA idB)"
    "socketToRoom (exec pairAB init) idB = Some (roomId idA idB)"
    by (simp_all add: idC_def example_defs)
  have ne: "idB \<noteq> idA" by (simp add: idA_def idB_def)
  note none = relay_contract [where s = "exec pairAB init" and c = idC and r = "roomId idA idB"
        and target = "''partner''" and signal = "''offer''" and msg = "''hi''", OF r]
  note some = relay_contract [where s = "exec pairAB init" and c = idA and r = "roomId idA idB"
        and target = "''partner''" and signal = "''offer''" and msg = "''hi''", OF r]
  from none m(1) have n: "handleSignal idC ''partner'' ''offer'' (exec pairAB init) = exec pairAB init"
    "handleMessage idC ''hi'' (exec pairAB init) = exec pairAB init"
    by blast+
  from some m(2,3) ne
  have f: "filter (\<lambda>x. x \<noteq> idA) (rooms (exec pairAB init) (roomId idA idB)) = [idB]"
    by blast
  from some m(2) have
    "handleSignal idA ''partner'' ''offer'' (exec pairAB init) =
       (exec pairAB init)\<lparr>outbox := outbox (exec pairAB init) @
          map (\<lambda>x. (x, SignalEv idA ''offer''))
            (filter (\<lambda>x. x \<noteq> idA) (rooms (exec pairAB init) (roomId idA idB)))\<rparr>"
    "handleMessage idA ''hi'' (exec pairAB init) =
       (exec pairAB init)\<lparr>outbox := outbox (exec pairAB init) @
          map (\<lambda>x. (x, ReceiveMessage ''partner'' ''hi''))
            (filter (\<lambda>x. x \<noteq> idA) (rooms (exec pairAB init) (roomId idA idB)))\<rparr>"
    by blast+
  then have s: "handleSignal idA ''partner'' ''offer'' (exec pairAB init) =
       (exec pairAB init)\<lparr>outbox := outbox (exec pairAB init) @ [(idB, SignalEv idA ''offer'')]\<rparr>"
    "handleMessage idA ''hi'' (exec pairAB init) =
       (exec pairAB init)\<lparr>outbox := outbox (exec pairAB init) @ [(idB, ReceiveMessage ''partner'' ''hi'')]\<rparr>"
    unfolding f by simp_all
  from r m ne n s show ?thesis by blast
qed

text \<open>
  C8 (who receives \<open>partner_disconnected\<close>) at a concrete run: A and B are paired and A
  sends \<open>leave_room\<close>. The event goes to the whole room before the room is emptied, so
  the leaving connection A receives it as well as B.
\<close>
theorem leave_room_notifies_leaver:
  "feasible (pairAB @ [LeaveRoom idA]) init \<and>
   outbox (exec (pairAB @ [LeaveRoom idA]) init) =
     outbox (exec pairAB init) @ [(idB, PartnerDisconnected), (idA, PartnerDisconnected)]"
  by (simp add: example_defs)

text \<open>
  C9 (no self-pair). In every reachable state the guard branch \<open>partnerId === client.id\<close>
  cannot be taken by any client, no connection is mapped to a room made of itself twice,
  and every directory entry names a room of two different members, the key being one of
  them.
\<close>

theorem no_self_pair:
  "reachable s \<Longrightarrow>
     \<not> selfPairBranch s c \<and>
     socketToRoom s c \<noteq> Some (roomId c c) \<and>
     (\<forall>r. socketToRoom s c = Some r \<longrightarrow>
        (\<exists>p j. p \<noteq> j \<and> r = roomId p j \<and> (c = p \<or> c = j)))"
proof -
  assume r: "reachable s"
  have 1: "\<not> selfPairBranch s c"
    by (auto simp: selfPairBranch_def split: list.splits)
  have 3: "\<exists>p j. p \<noteq> j \<and> r = roomId p j \<and> (c = p \<or> c = j)" if "socketToRoom s c = Some r" for r
    using dir_shapeD[OF reachable_dir_shape[OF r] that] by blast
  have 2: "socketToRoom s c \<noteq> Some (roomId c c)"
  proof
    assume h: "socketToRoom s c = Some (roomId c c)"
    from dir_shapeD[OF reachable_dir_shape[OF r] h] obtain p j where
      pj: "p \<noteq> j" "valid_id p" "valid_id j" "roomId c c = roomId p j" "c = p \<or> c = j" by blast
    then have "length c = length p" by (auto simp: valid_id_def)
    with pj(4) have "c = p \<and> c = j" using roomId_inject[of c p c j] by blast
    with pj(1) show False by blast
  qed
  from 1 2 3 show ?thesis by blast
qed

theorem no_self_pair_witness:
  "reachable (exec pairAB init) \<and>
   socketToRoom (exec pairAB init) idB = Some (roomId idA idB) \<and> idA \<noteq> idB \<and>
   \<not> selfPairBranch (exec pairAB init) idB \<and>
   socketToRoom (exec pairAB init) idB \<noteq> Some (roomId idB idB)"
proof -
  have r: "reachable (exec pairAB init)"
    by (rule exec_reachable[OF reachable_init feasible_pairAB])
  have m: "socketToRoom (exec pairAB init) idB = Some (roomId idA idB)"
    by (simp add: example_defs)
  have ne: "idA \<noteq> idB" by (simp add: idA_def idB_def)
  show ?thesis using r m ne no_self_pair [OF r, of idB] by blast
qed

text \<open>
  C10 (derivation of the session identifier). The room name is built from the ordered pair
  (waiting partner, joiner). It is not order-independent: for identifiers of the same
  length, as the transport's are, swapping the two roles gives the same name only when
  the two identifiers are equal.
\<close>

theorem roomId_order_dependent:
  "length a = length b \<Longrightarrow> roomId a b = roomId b a \<longleftrightarrow> a = b"
  by (auto simp: roomId_def)

theorem roomId_order_dependent_witness:
  "length idA = length idB \<and> (roomId idA idB = roomId idB idA \<longleftrightarrow> idA = idB)"
  using roomId_order_dependent [of idA idB] by (simp add: idA_def idB_def)

text \<open>Two different connections: the two orders give two different room names.\<close>

theorem roomId_not_commutative: "roomId idA idB \<noteq> roomId idB idA"
  by (simp add: roomId_def idA_def idB_def)

end
